theory Spec2Isabelle
  imports Main
begin

section \<open>The smoke test (testsuites/test\_smoke.py)\<close>

subsection \<open>Exceptions, results and the node\<close>

text \<open>
  The exception classes the test distinguishes. \<open>TimeoutError\<close>, \<open>SSHException\<close> and
  \<open>SocketError\<close> (Python's \<open>socket.error\<close>) are the members of the tuple \<open>ssh_errors\<close>;
  an exception stands for its most specific member of that tuple, and \<open>OtherException\<close>
  for an exception that is an instance of none of them. An exception value carries its
  class and the text \<open>str(e)\<close>. For \<open>UnboundLocalError\<close> the interpreter's text depends on
  the Python version, so the model keeps the name of the local variable only.
\<close>

datatype exn_class =
  TimeoutError | SSHException | SocketError | OtherException
  | AssertionError | UnboundLocalError

datatype exn = Exn (exn_class: exn_class) (exn_str: string)

text \<open>\<open>ssh_errors = (TimeoutError, SSHException, socket.error)\<close>: what \<open>except ssh_errors\<close> catches.\<close>

definition is_ssh_error :: "exn \<Rightarrow> bool" where
  "is_ssh_error e = (exn_class e = TimeoutError \<or> exn_class e = SSHException
     \<or> exn_class e = SocketError)"

text \<open>
  The fields of invoke's \<open>Result\<close> that the test reads: \<open>ok\<close>, \<open>exited\<close> and \<open>command\<close>.
\<close>

record result =
  command :: string
  exited :: int
  ok :: bool

text \<open>
  The class \<open>Node\<close> is not part of the sources; it is the parameter of the test. Every
  call site of a node method is executed at most once in a run, so a node is given by
  what it answers at each call site: a value (\<open>Inr\<close>) or a raised exception (\<open>Inl\<close>).
  The calls pass \<open>warn=True\<close>, so a command that exits with a non-zero code is a value.
\<close>

record node =
  host :: string
  ping_before :: "exn + result"           \<comment> \<open>\<open>node.ping(warn=True)\<close>, line 30\<close>
  run_before :: "exn + result"            \<comment> \<open>\<open>node.run("uptime", warn=True)\<close>, line 36\<close>
  sudo_reboot :: "exn + result"           \<comment> \<open>\<open>node.sudo("reboot", warn=True)\<close>, line 43\<close>
  platform_restart :: "exn + unit"        \<comment> \<open>\<open>node.platform_restart()\<close>, line 46\<close>
  ping_after :: "exn + result"            \<comment> \<open>\<open>node.ping(warn=True)\<close>, line 52\<close>
  run_after :: "exn + result"             \<comment> \<open>\<open>node.run("uptime", warn=True)\<close>, line 56\<close>
  get_boot_diagnostics :: "exn + unit"    \<comment> \<open>\<open>node.get_boot_diagnostics()\<close>, line 61\<close>

subsection \<open>The state of a run: log records and the calls made\<close>

datatype level = INFO | WARNING

datatype call = Ping | Run string | Sudo string | PlatformRestart | GetBootDiagnostics

record tstate =
  logged :: "(level \<times> string) list"
  calls :: "call list"

type_synonym 'a prog = "tstate \<Rightarrow> (exn + 'a) \<times> tstate"

definition return :: "'a \<Rightarrow> 'a prog" where
  "return a s = (Inr a, s)"

definition raise :: "exn \<Rightarrow> 'a prog" where
  "raise e s = (Inl e, s)"

text \<open>Sequencing: an exception of the first statement skips the rest.\<close>

definition bind :: "'a prog \<Rightarrow> ('a \<Rightarrow> 'b prog) \<Rightarrow> 'b prog" where
  "bind m f s = (case m s of (Inl e, s') \<Rightarrow> (Inl e, s') | (Inr a, s') \<Rightarrow> f a s')"

text \<open>\<open>try: m  except ssh_errors as e: h e\<close>; any other exception passes through.\<close>

definition try_except_ssh :: "'a prog \<Rightarrow> (exn \<Rightarrow> 'a prog) \<Rightarrow> 'a prog" where
  "try_except_ssh m h s =
     (case m s of
        (Inl e, s') \<Rightarrow> if is_ssh_error e then h e s' else (Inl e, s')
      | (Inr a, s') \<Rightarrow> (Inr a, s'))"

definition logging :: "level \<Rightarrow> string \<Rightarrow> unit prog" where
  "logging lvl msg s = (Inr (), s\<lparr>logged := logged s @ [(lvl, msg)]\<rparr>)"

text \<open>A call of a node method: the call is recorded, the node's answer is the outcome.\<close>

definition invoke :: "call \<Rightarrow> exn + 'a \<Rightarrow> 'a prog" where
  "invoke c answer s = (answer, s\<lparr>calls := calls s @ [c]\<rparr>)"

text \<open>\<open>assert b, msg\<close>.\<close>

definition py_assert :: "bool \<Rightarrow> string \<Rightarrow> unit prog" where
  "py_assert b msg = (if b then return () else raise (Exn AssertionError msg))"

text \<open>
  Reading a local variable: a local that was never assigned (\<open>None\<close>) raises
  \<open>UnboundLocalError\<close>.
\<close>

definition read_local :: "string \<Rightarrow> 'a option \<Rightarrow> 'a prog" where
  "read_local name v = (case v of None \<Rightarrow> raise (Exn UnboundLocalError name) | Some a \<Rightarrow> return a)"

text \<open>\<open>'...'\<close> inside an f-string.\<close>

definition quoted :: "string \<Rightarrow> string" where
  "quoted s = CHR 0x27 # s @ [CHR 0x27]"

subsection \<open>The statements of \<open>test_smoke\<close>\<close>

text \<open>
  Lines 34-38 and 54-58: the shell probe, before and after the reboot. The value is the
  binding of the local \<open>ssh1\<close> (\<open>ssh2\<close>) afterwards: the handler assigns nothing, so after
  a caught exception the local is unbound.
\<close>

definition ssh_before :: "node \<Rightarrow> result option prog" where
  "ssh_before nd =
     try_except_ssh
       (bind (logging INFO ''SSHing before reboot...'') (\<lambda>_.
        bind (invoke (Run ''uptime'') (run_before nd)) (\<lambda>r.
        return (Some r))))
       (\<lambda>e. bind (logging WARNING (''SSH before reboot failed: '' @ quoted (exn_str e))) (\<lambda>_.
        return None))"

definition ssh_after :: "node \<Rightarrow> result option prog" where
  "ssh_after nd =
     try_except_ssh
       (bind (logging INFO ''SSHing after reboot...'') (\<lambda>_.
        bind (invoke (Run ''uptime'') (run_after nd)) (\<lambda>r.
        return (Some r))))
       (\<lambda>e. bind (logging WARNING (''SSH after reboot failed: '' @ quoted (exn_str e))) (\<lambda>_.
        return None))"

text \<open>
  Lines 40-49: reboot through the shell, otherwise through the platform. The \<open>else\<close>
  branch runs when the \<open>try\<close> body raised nothing; exceptions of the handler and of the
  \<open>else\<close> branch are not caught.
\<close>

definition reboot_step :: "node \<Rightarrow> unit prog" where
  "reboot_step nd =
     bind
       (try_except_ssh
          (bind (logging INFO ''Rebooting...'') (\<lambda>_.
           bind (invoke (Sudo ''reboot'') (sudo_reboot nd)) (\<lambda>r.
           return (Some r))))
          (\<lambda>e. bind (logging WARNING
                   (''SSH failed, using platform to reboot: '' @ quoted (exn_str e))) (\<lambda>_.
           bind (invoke PlatformRestart (platform_restart nd)) (\<lambda>_.
           return None))))
       (\<lambda>reboot. case reboot of
          None \<Rightarrow> return ()
        | Some r \<Rightarrow>
            if exited r \<noteq> - 1
            then logging WARNING (''While SSH worked, '' @ quoted ''reboot'' @ '' command failed'')
            else return ())"

text \<open>Lines 63-68: the checks at the end.\<close>

definition final_checks ::
  "node \<Rightarrow> result \<Rightarrow> result option \<Rightarrow> result \<Rightarrow> result option \<Rightarrow> unit prog" where
  "final_checks nd ping1 ssh1 ping2 ssh2 =
     bind (py_assert (ok ping1) (''Pinging '' @ host nd @ '' before reboot failed'')) (\<lambda>_.
     bind (read_local ''ssh1'' ssh1) (\<lambda>r1.
     bind (if \<not> ok r1
           then logging WARNING
                  (''SSH command '' @ quoted (command r1) @ '' before reboot failed'')
           else return ()) (\<lambda>_.
     bind (py_assert (ok ping2) (''Pinging '' @ host nd @ '' after reboot failed'')) (\<lambda>_.
     bind (read_local ''ssh2'' ssh2) (\<lambda>r2.
     if \<not> ok r2
     then logging WARNING (''SSH command '' @ quoted (command r2) @ '' after reboot failed'')
     else return ())))))"

text \<open>The test: \<open>Inr ()\<close> is a passed test, \<open>Inl e\<close> a test that ended with the exception \<open>e\<close>.\<close>

definition test_smoke :: "node \<Rightarrow> unit prog" where
  "test_smoke nd =
     bind (logging INFO ''Pinging before reboot...'') (\<lambda>_.
     bind (invoke Ping (ping_before nd)) (\<lambda>ping1.
     bind (ssh_before nd) (\<lambda>ssh1.
     bind (reboot_step nd) (\<lambda>_.
     bind (logging INFO ''Pinging after reboot...'') (\<lambda>_.
     bind (invoke Ping (ping_after nd)) (\<lambda>ping2.
     bind (ssh_after nd) (\<lambda>ssh2.
     bind (logging INFO ''Retrieving boot diagnostics...'') (\<lambda>_.
     bind (invoke GetBootDiagnostics (get_boot_diagnostics nd)) (\<lambda>_.
     final_checks nd ping1 ssh1 ping2 ssh2)))))))))"

definition init :: tstate where
  "init = \<lparr>logged = [], calls = []\<rparr>"

text \<open>The warnings among the log records of a state.\<close>

definition warnings :: "tstate \<Rightarrow> string list" where
  "warnings s = map snd (filter (\<lambda>r. fst r = WARNING) (logged s))"

text \<open>
  No call of the node raises an exception that the test does not catch: the pings, the
  platform restart and the diagnostics return, and the shell commands return or raise
  one of \<open>ssh_errors\<close>.
\<close>

definition returns_or_ssh_error :: "exn + 'a \<Rightarrow> bool" where
  "returns_or_ssh_error a = (case a of Inl e \<Rightarrow> is_ssh_error e | Inr _ \<Rightarrow> True)"

definition reboot_completes :: "node \<Rightarrow> bool" where
  "reboot_completes nd =
     (case sudo_reboot nd of
        Inl e \<Rightarrow> is_ssh_error e \<and> platform_restart nd = Inr ()
      | Inr _ \<Rightarrow> True)"

definition no_uncaught_fault :: "node \<Rightarrow> bool" where
  "no_uncaught_fault nd =
     (\<not> isl (ping_before nd) \<and> returns_or_ssh_error (run_before nd) \<and> reboot_completes nd
      \<and> \<not> isl (ping_after nd) \<and> returns_or_ssh_error (run_after nd)
      \<and> \<not> isl (get_boot_diagnostics nd))"

text \<open>A probe succeeded: it returned a result that is \<open>ok\<close>.\<close>

definition succeeded :: "exn + result \<Rightarrow> bool" where
  "succeeded a = (case a of Inl _ \<Rightarrow> False | Inr r \<Rightarrow> ok r)"

subsection \<open>Example nodes\<close>

definition res :: "string \<Rightarrow> int \<Rightarrow> result" where
  "res c n = \<lparr>command = c, exited = n, ok = (n = 0)\<rparr>"

text \<open>A healthy node: every probe succeeds and the reboot drops the channel (exit code -1).\<close>

definition healthy :: node where
  "healthy =
     \<lparr>host = ''vm0'',
      ping_before = Inr (res ''ping'' 0),
      run_before = Inr (res ''uptime'' 0),
      sudo_reboot = Inr (res ''reboot'' (- 1)),
      platform_restart = Inr (),
      ping_after = Inr (res ''ping'' 0),
      run_after = Inr (res ''uptime'' 0),
      get_boot_diagnostics = Inr ()\<rparr>"

text \<open>Reachable before and unreachable after the reboot, both shell probes exit with 1.\<close>

definition unreachable_after :: node where
  "unreachable_after =
     healthy\<lparr>run_before := Inr (res ''uptime'' 1),
             ping_after := Inr (res ''ping'' 1),
             run_after := Inr (res ''uptime'' 1)\<rparr>"

text \<open>The shell is unreachable for the reboot and the platform restarts the machine.\<close>

definition shell_down :: node where
  "shell_down = healthy\<lparr>sudo_reboot := Inl (Exn SSHException ''No route to host'')\<rparr>"

text \<open>The shell is unreachable for the reboot and the platform restart fails as well.\<close>

definition platform_down :: node where
  "platform_down =
     shell_down\<lparr>platform_restart := Inl (Exn OtherException ''platform unavailable'')\<rparr>"

text \<open>The reboot command runs and exits with 1.\<close>

definition reboot_refused :: node where
  "reboot_refused = healthy\<lparr>sudo_reboot := Inr (res ''reboot'' 1)\<rparr>"

text \<open>The shell probe before the reboot times out; everything else is healthy.\<close>

definition ssh_timeout_before :: node where
  "ssh_timeout_before = healthy\<lparr>run_before := Inl (Exn TimeoutError ''timed out'')\<rparr>"

section \<open>Marker validation (lisa.py)\<close>

subsection \<open>Python values\<close>

text \<open>
  The Python values of the model: \<open>None\<close>, booleans, integers, strings, lists and
  dictionaries with string keys (in insertion order). Floating-point numbers and
  objects of other classes are outside the model.
\<close>

datatype pyval =
  PNone | PBool bool | PInt int | PStr string | PList "pyval list"
  | PDict "(string \<times> pyval) list"

type_synonym dict = "(string \<times> pyval) list"

text \<open>\<open>d[k] = v\<close>: an existing key keeps its place, a new key goes to the end.\<close>

fun dict_set :: "dict \<Rightarrow> string \<Rightarrow> pyval \<Rightarrow> dict" where
  "dict_set [] k v = [(k, v)]"
| "dict_set ((k', v') # d) k v =
     (if k' = k then (k', v) # d else (k', v') # dict_set d k v)"

text \<open>\<open>d.update(new)\<close>.\<close>

definition dict_update :: "dict \<Rightarrow> dict \<Rightarrow> dict" where
  "dict_update d new = foldl (\<lambda>d (k, v). dict_set d k v) d new"

text \<open>\<open>v[k]\<close> on a dictionary; \<open>None\<close> stands for the \<open>KeyError\<close> or \<open>TypeError\<close>.\<close>

fun subscript :: "pyval \<Rightarrow> string \<Rightarrow> pyval option" where
  "subscript (PDict d) k = map_of d k"
| "subscript v k = None"

subsection \<open>The configuration\<close>

definition config :: pyval where
  "config =
     PDict [(''run'',
       PDict [(''echo'', PBool True),
              (''in_stream'', PBool False),
              (''command_timeout'', PInt 1200)])]"

text \<open>\<open>config["run"]["command_timeout"]\<close>.\<close>

definition command_timeout :: "pyval option" where
  "command_timeout =
     (case subscript config ''run'' of None \<Rightarrow> None | Some r \<Rightarrow> subscript r ''command_timeout'')"

subsection \<open>The schema language\<close>

text \<open>
  The package \<open>schema\<close> is a dependency, not part of the sources. The model covers the
  forms that \<open>lisa_schema\<close> uses, with the meaning they have in the package (0.7): a class
  accepts its instances, a literal accepts the values equal to it (\<open>==\<close>), \<open>Or\<close> accepts
  what its first matching alternative accepts, a list schema accepts a list whose
  elements each match one of its members. A validation returns the validated value or
  raises \<open>SchemaError\<close> (\<open>None\<close>).
\<close>

datatype pytype = TStr | TObject

datatype literal = LStr string | LInt int

datatype schema = SType pytype | SLit literal | SOr "schema list" | SList "schema list"

text \<open>
  The keys of a dictionary schema: a literal key (required), \<open>Optional(key, default=d)\<close>
  and \<open>Optional(cls)\<close>. The default is the value put in; \<open>default=list\<close> is callable and is
  called, which gives \<open>[]\<close>.
\<close>

datatype skey = Key string | Optional string "pyval option" | OptionalType pytype

fun isinstance :: "pyval \<Rightarrow> pytype \<Rightarrow> bool" where
  "isinstance v TObject = True"
| "isinstance (PStr s) TStr = True"
| "isinstance v TStr = False"

text \<open>\<open>literal == v\<close>; a boolean is equal to the integer 1 or 0.\<close>

fun lit_eq :: "literal \<Rightarrow> pyval \<Rightarrow> bool" where
  "lit_eq (LStr s) (PStr t) = (s = t)"
| "lit_eq (LInt i) (PInt j) = (i = j)"
| "lit_eq (LInt i) (PBool b) = (i = (if b then 1 else 0))"
| "lit_eq l v = False"

fun first_valid :: "'a option list \<Rightarrow> 'a option" where
  "first_valid [] = None"
| "first_valid (Some a # rest) = Some a"
| "first_valid (None # rest) = first_valid rest"

fun validate_value :: "schema \<Rightarrow> pyval \<Rightarrow> pyval option" where
  "validate_value (SType t) v = (if isinstance v t then Some v else None)"
| "validate_value (SLit l) v = (if lit_eq l v then Some v else None)"
| "validate_value (SOr ss) v = first_valid (map (\<lambda>s. validate_value s v) ss)"
| "validate_value (SList ss) (PList ds) =
     map_option PList
       (those (map (\<lambda>d. first_valid (map (\<lambda>s. validate_value s d) ss)) ds))"
| "validate_value (SList ss) v = None"

text \<open>
  The keys of a dictionary schema are tried in the order of their priority: literal
  keys (0), then optional literal keys (0.5), then optional classes (3.5); the model
  doubles the numbers. The sort is stable.
\<close>

fun key_priority :: "skey \<Rightarrow> nat" where
  "key_priority (Key k) = 0"
| "key_priority (Optional k d) = 1"
| "key_priority (OptionalType t) = 7"

text \<open>Does a key of the data match a key of the schema?\<close>

fun match_skey :: "skey \<Rightarrow> string \<Rightarrow> bool" where
  "match_skey (Key k) key = (key = k)"
| "match_skey (Optional k d) key = (key = k)"
| "match_skey (OptionalType t) key = isinstance (PStr key) t"

datatype validate_error =
  AssertError string
  | SchemaError string                 \<comment> \<open>the key whose value did not validate\<close>
  | SchemaMissingKeyError "string set" \<comment> \<open>the required keys that are missing\<close>
  | SchemaWrongKeyError "string set"   \<comment> \<open>the keys that no key of the schema matches\<close>

text \<open>
  One item of the data: the first key of the schema that matches its key decides. If
  the value does not validate against that key's schema, the validation fails at once.
\<close>

fun find_entry ::
  "(skey \<times> schema) list \<Rightarrow> string \<Rightarrow> pyval \<Rightarrow> validate_error + (skey \<times> pyval) option" where
  "find_entry [] key val = Inr None"
| "find_entry ((sk, sv) # rest) key val =
     (if match_skey sk key
      then (case validate_value sv val of
              None \<Rightarrow> Inl (SchemaError key)
            | Some nv \<Rightarrow> Inr (Some (sk, nv)))
      else find_entry rest key val)"

text \<open>The loop over the items, with the validated dictionary and the schema keys used.\<close>

fun validate_items ::
  "(skey \<times> schema) list \<Rightarrow> dict \<Rightarrow> dict \<times> skey list \<Rightarrow> validate_error + dict \<times> skey list" where
  "validate_items sks [] acc = Inr acc"
| "validate_items sks ((key, val) # items) (new, coverage) =
     (case find_entry sks key val of
        Inl e \<Rightarrow> Inl e
      | Inr None \<Rightarrow> validate_items sks items (new, coverage)
      | Inr (Some (sk, nv)) \<Rightarrow> validate_items sks items (dict_set new key nv, sk # coverage))"

definition is_dict :: "pyval \<Rightarrow> bool" where
  "is_dict v = (case v of PDict _ \<Rightarrow> True | _ \<Rightarrow> False)"

text \<open>The items of the data, those with a dictionary as value last.\<close>

definition data_items :: "dict \<Rightarrow> dict" where
  "data_items d = filter (\<lambda>(k, v). \<not> is_dict v) d @ filter (\<lambda>(k, v). is_dict v) d"

fun required_keys :: "(skey \<times> schema) list \<Rightarrow> skey list" where
  "required_keys [] = []"
| "required_keys ((Key k, sv) # s) = Key k # required_keys s"
| "required_keys (_ # s) = required_keys s"

fun skey_name :: "skey \<Rightarrow> string" where
  "skey_name (Key k) = k"
| "skey_name (Optional k d) = k"
| "skey_name (OptionalType t) = []"

fun default_items :: "(skey \<times> schema) list \<Rightarrow> skey list \<Rightarrow> dict" where
  "default_items [] coverage = []"
| "default_items ((Optional k (Some d), sv) # s) coverage =
     (if Optional k (Some d) \<in> set coverage then default_items s coverage
      else (k, d) # default_items s coverage)"
| "default_items (_ # s) coverage = default_items s coverage"

text \<open>\<open>Schema(s, ignore_extra_keys=i).validate(data)\<close> for a dictionary schema \<open>s\<close>.\<close>

definition validate_dict :: "(skey \<times> schema) list \<Rightarrow> bool \<Rightarrow> dict \<Rightarrow> validate_error + dict" where
  "validate_dict s ignore_extra_keys data =
     (case validate_items (sort_key (\<lambda>(k, sv). key_priority k) s) (data_items data) ([], []) of
        Inl e \<Rightarrow> Inl e
      | Inr (new, coverage) \<Rightarrow>
          if \<not> set (required_keys s) \<subseteq> set coverage
          then Inl (SchemaMissingKeyError
                 (skey_name ` (set (required_keys s) - set coverage)))
          else if \<not> ignore_extra_keys \<and> length new \<noteq> length data
          then Inl (SchemaWrongKeyError (fst ` set data - fst ` set new))
          else Inr (dict_update new (default_items s coverage)))"

subsection \<open>\<open>lisa_schema\<close> and \<open>validate\<close>\<close>

definition lisa_schema :: "(skey \<times> schema) list" where
  "lisa_schema =
     [(Key ''platform'', SType TStr),
      (Key ''category'',
         SOr [SLit (LStr ''Functional''), SLit (LStr ''Performance''), SLit (LStr ''Stress''),
              SLit (LStr ''Community''), SLit (LStr ''Longhaul'')]),
      (Key ''area'', SType TStr),
      (Key ''priority'', SOr [SLit (LInt 0), SLit (LInt 1), SLit (LInt 2), SLit (LInt 3)]),
      (Optional ''features'' (Some (PList [])), SList [SType TStr]),
      (OptionalType TObject, SType TObject)]"

text \<open>The fields of pytest's \<open>Mark\<close> that \<open>validate\<close> reads.\<close>

record mark =
  args :: "pyval list"
  kwargs :: dict

text \<open>
  \<open>validate\<close>, with assertions enabled: the outcome and the mark afterwards. The
  dictionary \<open>mark.kwargs\<close> is updated in place, and only after the schema has accepted it.
\<close>

definition validate :: "mark \<Rightarrow> (validate_error + unit) \<times> mark" where
  "validate m =
     (if args m \<noteq> []
      then (Inl (AssertError ''LISA marker cannot have positional arguments!''), m)
      else (case validate_dict lisa_schema True (kwargs m) of
              Inl e \<Rightarrow> (Inl e, m)
            | Inr new \<Rightarrow> (Inr (), m\<lparr>kwargs := dict_update (kwargs m) new\<rparr>)))"

text \<open>
  The parameters a LISA marker must have, in words: strings for the platform and the
  area, one of the five categories, a priority equal to one of 0 to 3 and, if there
  are features, a list of strings.
\<close>

definition is_str :: "pyval \<Rightarrow> bool" where
  "is_str v = (case v of PStr _ \<Rightarrow> True | _ \<Rightarrow> False)"

definition is_str_list :: "pyval \<Rightarrow> bool" where
  "is_str_list v = (case v of PList vs \<Rightarrow> list_all is_str vs | _ \<Rightarrow> False)"

definition is_category :: "pyval \<Rightarrow> bool" where
  "is_category v =
     (v \<in> {PStr ''Functional'', PStr ''Performance'', PStr ''Stress'', PStr ''Community'',
           PStr ''Longhaul''})"

definition is_priority :: "pyval \<Rightarrow> bool" where
  "is_priority v =
     (v \<in> {PInt 0, PInt 1, PInt 2, PInt 3, PBool False, PBool True})"

definition has :: "dict \<Rightarrow> string \<Rightarrow> (pyval \<Rightarrow> bool) \<Rightarrow> bool" where
  "has kw k P = (case map_of kw k of None \<Rightarrow> False | Some v \<Rightarrow> P v)"

definition required_parameters_ok :: "dict \<Rightarrow> bool" where
  "required_parameters_ok kw =
     (has kw ''platform'' is_str \<and> has kw ''category'' is_category
      \<and> has kw ''area'' is_str \<and> has kw ''priority'' is_priority)"

definition features_ok :: "dict \<Rightarrow> bool" where
  "features_ok kw = (case map_of kw ''features'' of None \<Rightarrow> True | Some v \<Rightarrow> is_str_list v)"

subsection \<open>Example markers\<close>

definition smoke_kwargs :: dict where
  "smoke_kwargs =
     [(''platform'', PStr ''Azure''), (''category'', PStr ''Functional''),
      (''area'', PStr ''deploy''), (''priority'', PInt 0)]"

definition smoke_mark :: mark where
  "smoke_mark = \<lparr>args = [], kwargs = smoke_kwargs\<rparr>"

text \<open>The same marker with a number where the list of features belongs.\<close>

definition bad_features_kwargs :: dict where
  "bad_features_kwargs = smoke_kwargs @ [(''features'', PInt 5)]"

text \<open>A marker with a positional argument.\<close>

definition positional_mark :: mark where
  "positional_mark = \<lparr>args = [PStr ''smoke''], kwargs = smoke_kwargs\<rparr>"

text \<open>The smoke marker with one more parameter, which the schema does not name.\<close>

definition tagged_kwargs :: dict where
  "tagged_kwargs = (''owner'', PStr ''core'') # smoke_kwargs"

subsection \<open>Auxiliary notions for \<open>lisa_schema\<close>\<close>

text \<open>What \<open>lisa_schema\<close> asks of the value of a key, and the key of the schema that a key
  of the data matches first.\<close>

definition param_ok :: "string \<Rightarrow> pyval \<Rightarrow> bool" where
  "param_ok k v =
     ((k = ''platform'' \<longrightarrow> is_str v) \<and> (k = ''category'' \<longrightarrow> is_category v)
      \<and> (k = ''area'' \<longrightarrow> is_str v) \<and> (k = ''priority'' \<longrightarrow> is_priority v)
      \<and> (k = ''features'' \<longrightarrow> is_str_list v))"

definition lisa_key :: "string \<Rightarrow> skey" where
  "lisa_key k =
     (if k = ''platform'' \<or> k = ''category'' \<or> k = ''area'' \<or> k = ''priority'' then Key k
      else if k = ''features'' then Optional ''features'' (Some (PList []))
      else OptionalType TObject)"


section \<open>Properties of the smoke test\<close>

lemmas prog_defs = return_def raise_def bind_def try_except_ssh_def logging_def invoke_def
  py_assert_def read_local_def

lemma reboot_step_returned:
  "sudo_reboot nd = Inr r \<Longrightarrow>
   reboot_step nd s =
     (Inr (), s\<lparr>logged := logged s @ [(INFO, ''Rebooting...'')] @
                (if exited r \<noteq> - 1
                 then [(WARNING, ''While SSH worked, '' @ quoted ''reboot'' @ '' command failed'')]
                 else []),
              calls := calls s @ [Sudo ''reboot'']\<rparr>)"
  by (simp add: reboot_step_def prog_defs)

lemma reboot_step_raised:
  "sudo_reboot nd = Inl e \<Longrightarrow>
   reboot_step nd s =
     (if is_ssh_error e
      then (platform_restart nd,
            s\<lparr>logged := logged s @ [(INFO, ''Rebooting...''),
                 (WARNING, ''SSH failed, using platform to reboot: '' @ quoted (exn_str e))],
              calls := calls s @ [Sudo ''reboot'', PlatformRestart]\<rparr>)
      else (Inl e, s\<lparr>logged := logged s @ [(INFO, ''Rebooting...'')],
                     calls := calls s @ [Sudo ''reboot'']\<rparr>))"
  by (cases "platform_restart nd") (simp_all add: reboot_step_def prog_defs)

lemma ssh_before_returned:
  "run_before nd = Inr r \<Longrightarrow>
   ssh_before nd s =
     (Inr (Some r), s\<lparr>logged := logged s @ [(INFO, ''SSHing before reboot...'')],
                      calls := calls s @ [Run ''uptime'']\<rparr>)"
  by (simp add: ssh_before_def prog_defs)

lemma ssh_before_raised:
  "run_before nd = Inl e \<Longrightarrow>
   ssh_before nd s =
     (if is_ssh_error e
      then (Inr None,
            s\<lparr>logged := logged s @ [(INFO, ''SSHing before reboot...''),
                 (WARNING, ''SSH before reboot failed: '' @ quoted (exn_str e))],
              calls := calls s @ [Run ''uptime'']\<rparr>)
      else (Inl e, s\<lparr>logged := logged s @ [(INFO, ''SSHing before reboot...'')],
                     calls := calls s @ [Run ''uptime'']\<rparr>))"
  by (simp add: ssh_before_def prog_defs)

lemma ssh_after_returned:
  "run_after nd = Inr r \<Longrightarrow>
   ssh_after nd s =
     (Inr (Some r), s\<lparr>logged := logged s @ [(INFO, ''SSHing after reboot...'')],
                      calls := calls s @ [Run ''uptime'']\<rparr>)"
  by (simp add: ssh_after_def prog_defs)

lemma ssh_after_raised:
  "run_after nd = Inl e \<Longrightarrow>
   ssh_after nd s =
     (if is_ssh_error e
      then (Inr None,
            s\<lparr>logged := logged s @ [(INFO, ''SSHing after reboot...''),
                 (WARNING, ''SSH after reboot failed: '' @ quoted (exn_str e))],
              calls := calls s @ [Run ''uptime'']\<rparr>)
      else (Inl e, s\<lparr>logged := logged s @ [(INFO, ''SSHing after reboot...'')],
                     calls := calls s @ [Run ''uptime'']\<rparr>))"
  by (simp add: ssh_after_def prog_defs)

text \<open>
  C2. When the shell reboot raises one of \<open>ssh_errors\<close> and the platform restart returns,
  the reboot step returns normally: the platform restart is invoked after the shell
  command and the exception of the shell command does not escape.
\<close>
theorem reboot_falls_back_to_platform:
  assumes "sudo_reboot nd = Inl e" and "is_ssh_error e" and "platform_restart nd = Inr ()"
  shows "fst (reboot_step nd s) = Inr ()
     \<and> fst (reboot_step nd s) \<noteq> Inl e
     \<and> calls (snd (reboot_step nd s)) = calls s @ [Sudo ''reboot'', PlatformRestart]"
  using assms by (simp add: reboot_step_raised)

theorem reboot_falls_back_to_platform_witness:
  "sudo_reboot shell_down = Inl (Exn SSHException ''No route to host'')
   \<and> is_ssh_error (Exn SSHException ''No route to host'')
   \<and> platform_restart shell_down = Inr ()
   \<and> fst (reboot_step shell_down init) = Inr ()
   \<and> calls (snd (reboot_step shell_down init)) = [Sudo ''reboot'', PlatformRestart]"
proof -
  have a: "sudo_reboot shell_down = Inl (Exn SSHException ''No route to host'')"
    by (simp add: shell_down_def healthy_def)
  have b: "is_ssh_error (Exn SSHException ''No route to host'')"
    by (simp add: is_ssh_error_def)
  have c: "platform_restart shell_down = Inr ()"
    by (simp add: shell_down_def healthy_def)
  show ?thesis
    using a b c reboot_falls_back_to_platform [OF a b c, of init] by (simp add: init_def)
qed

text \<open>
  C3, as amended. The reboot step catches exactly the \<open>ssh_errors\<close> of the shell command.
  An exception leaves the step if and only if it is another exception of the shell
  command, or the shell command raised one of \<open>ssh_errors\<close> and the platform restart
  raised it: a fault of the platform restart is not caught.
\<close>
theorem reboot_step_raises_iff:
  "fst (reboot_step nd s) = Inl e \<longleftrightarrow>
     (sudo_reboot nd = Inl e \<and> \<not> is_ssh_error e)
     \<or> (\<exists>e0. sudo_reboot nd = Inl e0 \<and> is_ssh_error e0 \<and> platform_restart nd = Inl e)"
proof (cases "sudo_reboot nd")
  case (Inl e0)
  then show ?thesis by (auto simp: reboot_step_raised)
next
  case (Inr r)
  then show ?thesis by (simp add: reboot_step_returned)
qed

text \<open>
  C4. A reboot command that ran to completion ends the reboot step, whatever its exit
  code: the step returns normally, its only call is the shell command, and the whole
  test never calls the platform restart.
\<close>
theorem completed_reboot_ends_escalation:
  assumes "sudo_reboot nd = Inr r"
  shows "fst (reboot_step nd s) = Inr ()
     \<and> calls (snd (reboot_step nd s)) = calls s @ [Sudo ''reboot'']
     \<and> (PlatformRestart \<notin> set (calls s) \<longrightarrow>
          PlatformRestart \<notin> set (calls (snd (test_smoke nd s))))"
proof -
  have "PlatformRestart \<notin> set (calls (snd (test_smoke nd s)))" if "PlatformRestart \<notin> set (calls s)"
    using that assms
    by (cases "ping_before nd"; cases "run_before nd"; cases "ping_after nd"; cases "run_after nd";
        cases "get_boot_diagnostics nd")
       (simp_all add: test_smoke_def reboot_step_returned ssh_before_returned ssh_before_raised
         ssh_after_returned ssh_after_raised final_checks_def prog_defs split: option.splits)
  then show ?thesis using assms by (simp add: reboot_step_returned)
qed

text \<open>
  C5. For a reboot command that ran to completion, the reboot step logs a warning if and
  only if the exit code differs from \<open>-1\<close>: the exit code \<open>-1\<close> alone counts as success.
\<close>
theorem reboot_warning_iff_exit_not_minus_one:
  assumes "sudo_reboot nd = Inr r"
  shows "warnings (snd (reboot_step nd s)) =
           warnings s @ (if exited r = - 1 then []
                         else [''While SSH worked, '' @ quoted ''reboot'' @ '' command failed''])"
  using assms by (simp add: reboot_step_returned warnings_def)

text \<open>
  C8. The reboot step is a function of its two strategies: two runs in which the shell
  command and the platform restart answer the same have the same outcome, log the same
  records and make the same calls, whatever the states they start in and whatever the
  rest of the node.
\<close>
theorem reboot_step_deterministic:
  assumes "sudo_reboot nd = sudo_reboot nd'" and "platform_restart nd = platform_restart nd'"
  shows "fst (reboot_step nd s) = fst (reboot_step nd' s')
     \<and> drop (length (logged s)) (logged (snd (reboot_step nd s)))
         = drop (length (logged s')) (logged (snd (reboot_step nd' s')))
     \<and> drop (length (calls s)) (calls (snd (reboot_step nd s)))
         = drop (length (calls s')) (calls (snd (reboot_step nd' s')))"
proof (cases "sudo_reboot nd")
  case (Inl e)
  with assms have "sudo_reboot nd' = Inl e" by simp
  with Inl assms(2) show ?thesis by (simp add: reboot_step_raised)
next
  case (Inr r)
  with assms have "sudo_reboot nd' = Inr r" by simp
  with Inr show ?thesis by (simp add: reboot_step_returned)
qed

lemmas node_defs = healthy_def unreachable_after_def shell_down_def platform_down_def
  reboot_refused_def ssh_timeout_before_def res_def

lemmas step_simps = reboot_step_returned reboot_step_raised ssh_before_returned
  ssh_before_raised ssh_after_returned ssh_after_raised

lemma warnings_reboot_step:
  "warnings (snd (reboot_step nd s)) = warnings s @ warnings (snd (reboot_step nd init))"
  by (cases "sudo_reboot nd")
     (simp_all add: reboot_step_raised reboot_step_returned warnings_def init_def)

lemma reboot_step_completes:
  assumes "reboot_completes nd"
  shows "\<exists>l. (\<forall>s. reboot_step nd s =
       (Inr (), s\<lparr>logged := logged s @ l,
                  calls := calls s @ Sudo ''reboot'' #
                    (if isl (sudo_reboot nd) then [PlatformRestart] else [])\<rparr>)) \<and> map snd (filter (\<lambda>r. fst r = WARNING) l) = warnings (snd (reboot_step nd init))"
proof (cases "sudo_reboot nd")
  case (Inl e)
  with assms have "is_ssh_error e" and "platform_restart nd = Inr ()"
    by (simp_all add: reboot_completes_def)
  with Inl show ?thesis
    by (intro exI [of _ "[(INFO, ''Rebooting...''),
          (WARNING, ''SSH failed, using platform to reboot: '' @ quoted (exn_str e))]"])
       (simp_all add: reboot_step_raised warnings_def init_def)
next
  case (Inr r)
  then show ?thesis
    by (intro exI [of _ "(INFO, ''Rebooting...'') #
          (if exited r \<noteq> - 1
           then [(WARNING, ''While SSH worked, '' @ quoted ''reboot'' @ '' command failed'')]
           else [])"])
       (simp_all add: reboot_step_returned warnings_def init_def)
qed

lemma ssh_before_caught:
  assumes "returns_or_ssh_error (run_before nd)"
  shows "\<exists>l. (\<forall>s. ssh_before nd s =
       (Inr (case run_before nd of Inl e \<Rightarrow> None | Inr r \<Rightarrow> Some r),
        s\<lparr>logged := logged s @ l, calls := calls s @ [Run ''uptime'']\<rparr>)) \<and> map snd (filter (\<lambda>r. fst r = WARNING) l) =
       (case run_before nd of
          Inl e \<Rightarrow> [''SSH before reboot failed: '' @ quoted (exn_str e)] | Inr r \<Rightarrow> [])"
proof (cases "run_before nd")
  case (Inl e)
  with assms have "is_ssh_error e" by (simp add: returns_or_ssh_error_def)
  with Inl show ?thesis
    by (intro exI [of _ "[(INFO, ''SSHing before reboot...''),
          (WARNING, ''SSH before reboot failed: '' @ quoted (exn_str e))]"])
       (simp_all add: ssh_before_raised)
next
  case (Inr r)
  then show ?thesis
    by (intro exI [of _ "[(INFO, ''SSHing before reboot...'')]"])
       (simp_all add: ssh_before_returned)
qed

lemma ssh_after_caught:
  assumes "returns_or_ssh_error (run_after nd)"
  shows "\<exists>l. (\<forall>s. ssh_after nd s =
       (Inr (case run_after nd of Inl e \<Rightarrow> None | Inr r \<Rightarrow> Some r),
        s\<lparr>logged := logged s @ l, calls := calls s @ [Run ''uptime'']\<rparr>)) \<and> map snd (filter (\<lambda>r. fst r = WARNING) l) =
       (case run_after nd of
          Inl e \<Rightarrow> [''SSH after reboot failed: '' @ quoted (exn_str e)] | Inr r \<Rightarrow> [])"
proof (cases "run_after nd")
  case (Inl e)
  with assms have "is_ssh_error e" by (simp add: returns_or_ssh_error_def)
  with Inl show ?thesis
    by (intro exI [of _ "[(INFO, ''SSHing after reboot...''),
          (WARNING, ''SSH after reboot failed: '' @ quoted (exn_str e))]"])
       (simp_all add: ssh_after_raised)
next
  case (Inr r)
  then show ?thesis
    by (intro exI [of _ "[(INFO, ''SSHing after reboot...'')]"])
       (simp_all add: ssh_after_returned)
qed

lemma test_smoke_reaches_final_checks:
  assumes "no_uncaught_fault nd"
  shows "\<exists>t. test_smoke nd s =
           final_checks nd (projr (ping_before nd))
             (case run_before nd of Inl e \<Rightarrow> None | Inr r \<Rightarrow> Some r)
             (projr (ping_after nd))
             (case run_after nd of Inl e \<Rightarrow> None | Inr r \<Rightarrow> Some r) t
         \<and> calls t = calls s @ [Ping, Run ''uptime'', Sudo ''reboot'']
             @ (if isl (sudo_reboot nd) then [PlatformRestart] else [])
             @ [Ping, Run ''uptime'', GetBootDiagnostics]
         \<and> warnings t = warnings s
             @ (case run_before nd of
                  Inl e \<Rightarrow> [''SSH before reboot failed: '' @ quoted (exn_str e)] | Inr r \<Rightarrow> [])
             @ warnings (snd (reboot_step nd init))
             @ (case run_after nd of
                  Inl e \<Rightarrow> [''SSH after reboot failed: '' @ quoted (exn_str e)] | Inr r \<Rightarrow> [])"
proof -
  from assms obtain p1 p2 where p: "ping_before nd = Inr p1" "ping_after nd = Inr p2"
    and d: "get_boot_diagnostics nd = Inr ()"
    by (cases "ping_before nd"; cases "ping_after nd"; cases "get_boot_diagnostics nd")
       (simp_all add: no_uncaught_fault_def)
  from assms have b: "returns_or_ssh_error (run_before nd)"
    and a: "returns_or_ssh_error (run_after nd)" and r: "reboot_completes nd"
    by (simp_all add: no_uncaught_fault_def)
  from ssh_before_caught [OF b] obtain l1 where l1: "\<And>s. ssh_before nd s =
       (Inr (case run_before nd of Inl e \<Rightarrow> None | Inr r \<Rightarrow> Some r),
        s\<lparr>logged := logged s @ l1, calls := calls s @ [Run ''uptime'']\<rparr>)"
    and w1: "map snd (filter (\<lambda>r. fst r = WARNING) l1) =
       (case run_before nd of
          Inl e \<Rightarrow> [''SSH before reboot failed: '' @ quoted (exn_str e)] | Inr r \<Rightarrow> [])"
    by blast
  from reboot_step_completes [OF r] obtain l2 where l2: "\<And>s. reboot_step nd s =
       (Inr (), s\<lparr>logged := logged s @ l2,
                  calls := calls s @ Sudo ''reboot'' #
                    (if isl (sudo_reboot nd) then [PlatformRestart] else [])\<rparr>)"
    and w2: "map snd (filter (\<lambda>r. fst r = WARNING) l2) = warnings (snd (reboot_step nd init))"
    by blast
  from ssh_after_caught [OF a] obtain l3 where l3: "\<And>s. ssh_after nd s =
       (Inr (case run_after nd of Inl e \<Rightarrow> None | Inr r \<Rightarrow> Some r),
        s\<lparr>logged := logged s @ l3, calls := calls s @ [Run ''uptime'']\<rparr>)"
    and w3: "map snd (filter (\<lambda>r. fst r = WARNING) l3) =
       (case run_after nd of
          Inl e \<Rightarrow> [''SSH after reboot failed: '' @ quoted (exn_str e)] | Inr r \<Rightarrow> [])"
    by blast
  let ?t = "s\<lparr>logged := logged s @ (INFO, ''Pinging before reboot...'') # l1 @ l2
                @ (INFO, ''Pinging after reboot...'') # l3
                @ [(INFO, ''Retrieving boot diagnostics...'')],
              calls := calls s @ [Ping, Run ''uptime'', Sudo ''reboot'']
                @ (if isl (sudo_reboot nd) then [PlatformRestart] else [])
                @ [Ping, Run ''uptime'', GetBootDiagnostics]\<rparr>"
  have "test_smoke nd s =
           final_checks nd (projr (ping_before nd))
             (case run_before nd of Inl e \<Rightarrow> None | Inr r \<Rightarrow> Some r)
             (projr (ping_after nd))
             (case run_after nd of Inl e \<Rightarrow> None | Inr r \<Rightarrow> Some r) ?t"
    by (simp add: test_smoke_def p d l1 l2 l3 bind_def logging_def invoke_def)
  moreover have "warnings ?t = warnings s
             @ (case run_before nd of
                  Inl e \<Rightarrow> [''SSH before reboot failed: '' @ quoted (exn_str e)] | Inr r \<Rightarrow> [])
             @ warnings (snd (reboot_step nd init))
             @ (case run_after nd of
                  Inl e \<Rightarrow> [''SSH after reboot failed: '' @ quoted (exn_str e)] | Inr r \<Rightarrow> [])"
    using w1 w2 w3 by (simp add: warnings_def)
  moreover have "calls ?t = calls s @ [Ping, Run ''uptime'', Sudo ''reboot'']
             @ (if isl (sudo_reboot nd) then [PlatformRestart] else [])
             @ [Ping, Run ''uptime'', GetBootDiagnostics]"
    by simp
  ultimately show ?thesis by blast
qed

lemma final_checks_outcome:
  "fst (final_checks nd p1 (Some r1) p2 (Some r2) s) =
     (if \<not> ok p1
      then Inl (Exn AssertionError (''Pinging '' @ host nd @ '' before reboot failed''))
      else if \<not> ok p2
      then Inl (Exn AssertionError (''Pinging '' @ host nd @ '' after reboot failed''))
      else Inr ())"
  by (simp add: final_checks_def prog_defs)

lemma final_checks_warnings:
  "warnings (snd (final_checks nd p1 (Some r1) p2 (Some r2) s)) =
     warnings s
     @ (if ok p1 \<and> \<not> ok r1
        then [''SSH command '' @ quoted (command r1) @ '' before reboot failed''] else [])
     @ (if ok p1 \<and> ok p2 \<and> \<not> ok r2
        then [''SSH command '' @ quoted (command r2) @ '' after reboot failed''] else [])"
  by (simp add: final_checks_def prog_defs warnings_def)

lemma final_checks_calls:
  "calls (snd (final_checks nd p1 v1 p2 v2 s)) = calls s"
  by (cases v1; cases v2) (simp_all add: final_checks_def prog_defs)

lemma final_checks_unbound_ssh1:
  "fst (final_checks nd p1 None p2 v2 s) =
     (if \<not> ok p1
      then Inl (Exn AssertionError (''Pinging '' @ host nd @ '' before reboot failed''))
      else Inl (Exn UnboundLocalError ''ssh1''))"
  by (simp add: final_checks_def prog_defs)

text \<open>
  C1, as amended. When no call raises an exception that the test does not catch and both
  shell probes return a result, the test passes if and only if both pings are \<open>ok\<close>,
  and it fails with an \<open>AssertionError\<close> only. A shell probe that is not \<open>ok\<close> adds a warning
  and nothing else; the warning for the probe after the reboot is logged only when both
  ping assertions have passed.
\<close>
theorem shell_probe_results_are_advisory:
  assumes "ping_before nd = Inr p1" and "run_before nd = Inr r1" and "reboot_completes nd"
    and "ping_after nd = Inr p2" and "run_after nd = Inr r2"
    and "get_boot_diagnostics nd = Inr ()"
  shows "(fst (test_smoke nd s) = Inr () \<longleftrightarrow> ok p1 \<and> ok p2)
     \<and> (\<forall>e. fst (test_smoke nd s) = Inl e \<longrightarrow> exn_class e = AssertionError)
     \<and> warnings (snd (test_smoke nd s)) =
         warnings (snd (reboot_step nd s))
         @ (if ok p1 \<and> \<not> ok r1
            then [''SSH command '' @ quoted (command r1) @ '' before reboot failed''] else [])
         @ (if ok p1 \<and> ok p2 \<and> \<not> ok r2
            then [''SSH command '' @ quoted (command r2) @ '' after reboot failed''] else [])"
proof -
  have "no_uncaught_fault nd"
    using assms by (simp add: no_uncaught_fault_def returns_or_ssh_error_def)
  from test_smoke_reaches_final_checks [OF this, of s] assms(1,2,4,5)
  obtain t where t: "test_smoke nd s = final_checks nd p1 (Some r1) p2 (Some r2) t"
    and w: "warnings t = warnings s @ warnings (snd (reboot_step nd init))"
    by auto
  from w have w': "warnings t = warnings (snd (reboot_step nd s))"
    by (simp add: warnings_reboot_step [of nd s])
  have "fst (test_smoke nd s) = Inr () \<longleftrightarrow> ok p1 \<and> ok p2"
    by (simp add: t final_checks_outcome)
  moreover have "\<forall>e. fst (test_smoke nd s) = Inl e \<longrightarrow> exn_class e = AssertionError"
    by (auto simp: t final_checks_outcome split: if_splits)
  moreover have "warnings (snd (test_smoke nd s)) =
         warnings (snd (reboot_step nd s))
         @ (if ok p1 \<and> \<not> ok r1
            then [''SSH command '' @ quoted (command r1) @ '' before reboot failed''] else [])
         @ (if ok p1 \<and> ok p2 \<and> \<not> ok r2
            then [''SSH command '' @ quoted (command r2) @ '' after reboot failed''] else [])"
    unfolding t final_checks_warnings w' ..
  ultimately show ?thesis by blast
qed

theorem shell_probe_results_are_advisory_witness:
  "ping_before unreachable_after = Inr (res ''ping'' 0)
   \<and> run_before unreachable_after = Inr (res ''uptime'' 1)
   \<and> reboot_completes unreachable_after
   \<and> ping_after unreachable_after = Inr (res ''ping'' 1)
   \<and> run_after unreachable_after = Inr (res ''uptime'' 1)
   \<and> get_boot_diagnostics unreachable_after = Inr ()
   \<and> fst (test_smoke unreachable_after init) \<noteq> Inr ()
   \<and> warnings (snd (test_smoke unreachable_after init)) =
        warnings (snd (reboot_step unreachable_after init))
        @ [''SSH command '' @ quoted ''uptime'' @ '' before reboot failed'']"
proof -
  have a: "ping_before unreachable_after = Inr (res ''ping'' 0)"
    and b: "run_before unreachable_after = Inr (res ''uptime'' 1)"
    and c: "reboot_completes unreachable_after"
    and d: "ping_after unreachable_after = Inr (res ''ping'' 1)"
    and e: "run_after unreachable_after = Inr (res ''uptime'' 1)"
    and f: "get_boot_diagnostics unreachable_after = Inr ()"
    by (simp_all add: unreachable_after_def healthy_def reboot_completes_def)
  have g: "ok (res ''ping'' 0)" "\<not> ok (res ''ping'' 1)" "\<not> ok (res ''uptime'' 1)"
    "command (res ''uptime'' 1) = ''uptime''"
    by (simp_all add: res_def)
  from shell_probe_results_are_advisory [OF a b c d e f, of init] g
  have "fst (test_smoke unreachable_after init) \<noteq> Inr ()
     \<and> warnings (snd (test_smoke unreachable_after init)) =
        warnings (snd (reboot_step unreachable_after init))
        @ [''SSH command '' @ quoted ''uptime'' @ '' before reboot failed'']"
    by simp
  with a b c d e f show ?thesis by blast
qed

text \<open>
  C1 as stated fails: reachable before and unreachable after the reboot, both shell
  probes failing with exit code 1, and the run logs one warning, not two.
\<close>
theorem two_warnings_counterexample:
  "succeeded (ping_before unreachable_after) \<and> \<not> succeeded (ping_after unreachable_after)
   \<and> \<not> succeeded (run_before unreachable_after) \<and> \<not> succeeded (run_after unreachable_after)
   \<and> fst (test_smoke unreachable_after init)
       = Inl (Exn AssertionError ''Pinging vm0 after reboot failed'')
   \<and> warnings (snd (test_smoke unreachable_after init))
       = [''SSH command '' @ quoted ''uptime'' @ '' before reboot failed'']
   \<and> length (warnings (snd (test_smoke unreachable_after init))) \<noteq> 2"
  by (simp add: test_smoke_def step_simps final_checks_def prog_defs warnings_def
      node_defs succeeded_def init_def)

text \<open>
  A shell probe before the reboot that raises one of \<open>ssh_errors\<close> leaves the local \<open>ssh1\<close>
  unbound: when the ping before the reboot is \<open>ok\<close>, the check in line 64 ends the test
  with \<open>UnboundLocalError\<close>.
\<close>
lemma unbound_ssh1_after_caught_fault:
  assumes "no_uncaught_fault nd" and "succeeded (ping_before nd)"
    and "run_before nd = Inl e"
  shows "fst (test_smoke nd s) = Inl (Exn UnboundLocalError ''ssh1'')"
proof -
  from test_smoke_reaches_final_checks [OF assms(1), of s] assms(3)
  obtain t where "test_smoke nd s = final_checks nd (projr (ping_before nd)) None
      (projr (ping_after nd)) (case run_after nd of Inl e \<Rightarrow> None | Inr r \<Rightarrow> Some r) t"
    by auto
  moreover from assms(2) have "ok (projr (ping_before nd))"
    by (cases "ping_before nd") (simp_all add: succeeded_def)
  ultimately show ?thesis by (simp add: final_checks_unbound_ssh1)
qed

lemma ssh_timeout_fails_test:
  "no_uncaught_fault ssh_timeout_before \<and> succeeded (ping_before ssh_timeout_before)
   \<and> succeeded (ping_after ssh_timeout_before)
   \<and> fst (test_smoke ssh_timeout_before init) = Inl (Exn UnboundLocalError ''ssh1'')"
  by (simp add: test_smoke_def step_simps final_checks_def prog_defs
      node_defs init_def is_ssh_error_def no_uncaught_fault_def returns_or_ssh_error_def
      reboot_completes_def succeeded_def)

text \<open>
  C6, as amended. When no call raises an exception that the test does not catch, the
  calls of a run are the ping and the shell probe, the reboot (with the platform
  restart if the shell command raised), the ping and the shell probe again and the
  diagnostics, each once and in this order, whatever the probes report; and when all
  four probes succeed the test passes.
\<close>
theorem stages_run_once_in_order:
  assumes "no_uncaught_fault nd"
  shows "calls (snd (test_smoke nd s)) =
           calls s @ [Ping, Run ''uptime'', Sudo ''reboot'']
           @ (if isl (sudo_reboot nd) then [PlatformRestart] else [])
           @ [Ping, Run ''uptime'', GetBootDiagnostics]
     \<and> (succeeded (ping_before nd) \<and> succeeded (run_before nd)
          \<and> succeeded (ping_after nd) \<and> succeeded (run_after nd)
        \<longrightarrow> fst (test_smoke nd s) = Inr ())"
proof -
  from test_smoke_reaches_final_checks [OF assms, of s]
  obtain t where t: "test_smoke nd s =
      final_checks nd (projr (ping_before nd))
        (case run_before nd of Inl e \<Rightarrow> None | Inr r \<Rightarrow> Some r)
        (projr (ping_after nd))
        (case run_after nd of Inl e \<Rightarrow> None | Inr r \<Rightarrow> Some r) t"
    and c: "calls t = calls s @ [Ping, Run ''uptime'', Sudo ''reboot'']
        @ (if isl (sudo_reboot nd) then [PlatformRestart] else [])
        @ [Ping, Run ''uptime'', GetBootDiagnostics]"
    by blast
  have "calls (snd (test_smoke nd s)) = calls t"
    by (simp only: t final_checks_calls)
  moreover have "fst (test_smoke nd s) = Inr ()"
    if "succeeded (ping_before nd)" "succeeded (run_before nd)"
       "succeeded (ping_after nd)" "succeeded (run_after nd)"
    using that
    by (cases "ping_before nd"; cases "run_before nd"; cases "ping_after nd";
        cases "run_after nd")
       (simp_all add: t succeeded_def final_checks_outcome)
  ultimately show ?thesis using c by simp
qed

theorem stages_run_once_in_order_witness:
  "no_uncaught_fault shell_down
   \<and> calls (snd (test_smoke shell_down init)) =
       [Ping, Run ''uptime'', Sudo ''reboot'', PlatformRestart, Ping, Run ''uptime'',
        GetBootDiagnostics]
   \<and> succeeded (ping_before shell_down) \<and> succeeded (run_before shell_down)
   \<and> succeeded (ping_after shell_down) \<and> succeeded (run_after shell_down)
   \<and> fst (test_smoke shell_down init) = Inr ()"
proof -
  have a: "no_uncaught_fault shell_down"
    by (simp add: no_uncaught_fault_def returns_or_ssh_error_def reboot_completes_def
        is_ssh_error_def shell_down_def healthy_def)
  have b: "succeeded (ping_before shell_down)" "succeeded (run_before shell_down)"
    "succeeded (ping_after shell_down)" "succeeded (run_after shell_down)"
    by (simp_all add: succeeded_def shell_down_def healthy_def res_def)
  have c: "isl (sudo_reboot shell_down)"
    by (simp add: shell_down_def healthy_def)
  from stages_run_once_in_order [OF a, of init] b c a show ?thesis
    by (simp add: init_def)
qed

text \<open>
  C6 as stated fails: after a fault of the platform restart the ping and the shell
  probe after the reboot and the diagnostics are never called.
\<close>
theorem platform_fault_skips_stages:
  "calls (snd (test_smoke platform_down init)) =
     [Ping, Run ''uptime'', Sudo ''reboot'', PlatformRestart]
   \<and> GetBootDiagnostics \<notin> set (calls (snd (test_smoke platform_down init)))
   \<and> length (filter (\<lambda>c. c = Ping) (calls (snd (test_smoke platform_down init)))) = 1"
  by (simp add: test_smoke_def step_simps bind_def logging_def invoke_def
      node_defs init_def is_ssh_error_def)

text \<open>
  C3 as stated fails: a fault of the platform restart leaves the reboot step and the
  test as a raw exception.
\<close>
theorem platform_fault_escapes:
  "fst (reboot_step platform_down init) = Inl (Exn OtherException ''platform unavailable'')
   \<and> fst (test_smoke platform_down init) = Inl (Exn OtherException ''platform unavailable'')"
  by (simp add: test_smoke_def step_simps bind_def logging_def invoke_def node_defs init_def
      is_ssh_error_def)

theorem reboot_step_raises_iff_witness:
  "sudo_reboot platform_down = Inl (Exn SSHException ''No route to host'')
   \<and> is_ssh_error (Exn SSHException ''No route to host'')
   \<and> platform_restart platform_down = Inl (Exn OtherException ''platform unavailable'')
   \<and> fst (reboot_step platform_down init) = Inl (Exn OtherException ''platform unavailable'')"
  using reboot_step_raises_iff
    [of platform_down init "Exn OtherException ''platform unavailable''"]
  by (simp add: platform_down_def shell_down_def healthy_def is_ssh_error_def)

theorem completed_reboot_ends_escalation_witness:
  "sudo_reboot reboot_refused = Inr (res ''reboot'' 1)
   \<and> fst (reboot_step reboot_refused init) = Inr ()
   \<and> calls (snd (reboot_step reboot_refused init)) = [Sudo ''reboot'']
   \<and> PlatformRestart \<notin> set (calls (snd (test_smoke reboot_refused init)))"
proof -
  have a: "sudo_reboot reboot_refused = Inr (res ''reboot'' 1)"
    by (simp add: reboot_refused_def healthy_def)
  from completed_reboot_ends_escalation [OF a, of init] a show ?thesis
    by (simp add: init_def)
qed

theorem reboot_warning_iff_exit_not_minus_one_witness:
  "sudo_reboot reboot_refused = Inr (res ''reboot'' 1)
   \<and> warnings (snd (reboot_step reboot_refused init)) =
       [''While SSH worked, '' @ quoted ''reboot'' @ '' command failed'']
   \<and> sudo_reboot healthy = Inr (res ''reboot'' (- 1))
   \<and> warnings (snd (reboot_step healthy init)) = []"
proof -
  have a: "sudo_reboot reboot_refused = Inr (res ''reboot'' 1)"
    and b: "sudo_reboot healthy = Inr (res ''reboot'' (- 1))"
    by (simp_all add: reboot_refused_def healthy_def)
  from reboot_warning_iff_exit_not_minus_one [OF a, of init]
    reboot_warning_iff_exit_not_minus_one [OF b, of init] a b
  show ?thesis
    by (simp add: init_def warnings_def res_def)
qed

theorem reboot_step_deterministic_witness:
  "sudo_reboot healthy = sudo_reboot unreachable_after
   \<and> platform_restart healthy = platform_restart unreachable_after
   \<and> fst (reboot_step healthy init)
       = fst (reboot_step unreachable_after \<lparr>logged = [(INFO, ''earlier'')], calls = [Ping]\<rparr>)"
proof -
  have a: "sudo_reboot healthy = sudo_reboot unreachable_after"
    and b: "platform_restart healthy = platform_restart unreachable_after"
    by (simp_all add: unreachable_after_def)
  from reboot_step_deterministic [OF a b] a b show ?thesis
    by blast
qed

section \<open>Properties of the marker validation and the configuration\<close>

lemma sorted_lisa_schema: "sort_key (\<lambda>(k, sv). key_priority k) lisa_schema = lisa_schema"
  by (simp add: lisa_schema_def)

lemma validate_str: "validate_value (SType TStr) v = (if is_str v then Some v else None)"
  by (cases v) (simp_all add: is_str_def)

lemma validate_category:
  "validate_value (SOr [SLit (LStr ''Functional''), SLit (LStr ''Performance''),
      SLit (LStr ''Stress''), SLit (LStr ''Community''), SLit (LStr ''Longhaul'')]) v =
     (if is_category v then Some v else None)"
  by (cases v) (auto simp: is_category_def)

lemma validate_priority:
  "validate_value (SOr [SLit (LInt 0), SLit (LInt 1), SLit (LInt 2), SLit (LInt 3)]) v =
     (if is_priority v then Some v else None)"
  by (cases v) (auto simp: is_priority_def)

lemma isinstance_str: "isinstance v TStr = is_str v"
  by (cases v) (simp_all add: is_str_def)

lemma validate_object: "validate_value (SType TObject) v = Some v"
  by simp

lemma those_str:
  "those (map (\<lambda>d. first_valid (map (\<lambda>s. validate_value s d) [SType TStr])) ds) =
     (if list_all is_str ds then Some ds else None)"
  by (induction ds) (simp_all add: isinstance_str)

lemma validate_features:
  "validate_value (SList [SType TStr]) v = (if is_str_list v then Some v else None)"
  by (cases v) (simp_all add: is_str_list_def those_str del: list.map)

lemma find_entry_lisa:
  "find_entry lisa_schema k v =
     (if param_ok k v then Inr (Some (lisa_key k, v)) else Inl (SchemaError k))"
  by (simp add: lisa_schema_def validate_str validate_category validate_priority
      validate_features validate_object param_ok_def lisa_key_def del: validate_value.simps)


lemma validate_items_ok:
  "list_all (\<lambda>(k, v). param_ok k v) items \<Longrightarrow>
   validate_items lisa_schema items (new, cov) =
     Inr (dict_update new items, rev (map (\<lambda>(k, v). lisa_key k) items) @ cov)"
  by (induction items arbitrary: new cov)
     (auto simp: find_entry_lisa dict_update_def)

lemma validate_items_bad:
  "\<not> list_all (\<lambda>(k, v). param_ok k v) items \<Longrightarrow>
   \<exists>k. validate_items lisa_schema items (new, cov) = Inl (SchemaError k)"
  by (induction items arbitrary: new cov) (auto simp: find_entry_lisa)

lemma set_data_items: "set (data_items d) = set d"
  by (auto simp: data_items_def)

lemma list_all_data_items: "list_all P (data_items d) = list_all P d"
  by (simp add: list_all_iff set_data_items)

lemma distinct_data_items: "distinct (map fst d) \<Longrightarrow> distinct (map fst (data_items d))"
proof -
  assume "distinct (map fst d)"
  then have "distinct d" and inj: "inj_on fst (set d)"
    by (simp_all add: distinct_map)
  have "inj_on fst (set (data_items d))"
    using inj by (simp add: set_data_items)
  moreover have "distinct (data_items d)"
    using \<open>distinct d\<close> by (auto simp: data_items_def)
  ultimately show ?thesis by (simp add: distinct_map)
qed

lemma dict_set_fresh: "k \<notin> fst ` set d \<Longrightarrow> dict_set d k v = d @ [(k, v)]"
  by (induction d) auto

lemma dict_set_same: "map_of d k = Some v \<Longrightarrow> dict_set d k v = d"
  by (induction d) (auto split: if_splits)

lemma dict_update_fresh:
  "distinct (map fst (d @ items)) \<Longrightarrow> dict_update d items = d @ items"
proof (induction items arbitrary: d)
  case Nil
  then show ?case by (simp add: dict_update_def)
next
  case (Cons kv items)
  obtain k v where kv: "kv = (k, v)" by (cases kv)
  from Cons.prems have "k \<notin> fst ` set d" by (auto simp: kv)
  then have "dict_set d k v = d @ [(k, v)]" by (rule dict_set_fresh)
  moreover from Cons.prems have "distinct (map fst ((d @ [(k, v)]) @ items))"
    by (auto simp: kv)
  ultimately show ?case
    using Cons.IH [of "d @ [(k, v)]"] by (simp add: dict_update_def kv)
qed

lemma dict_update_same:
  "\<forall>(k, v) \<in> set items. map_of d k = Some v \<Longrightarrow> dict_update d items = d"
  by (induction items) (auto simp: dict_update_def dict_set_same)

lemma dict_update_append:
  "dict_update d (xs @ ys) = dict_update (dict_update d xs) ys"
  by (simp add: dict_update_def)

lemma required_keys_lisa:
  "required_keys lisa_schema =
     [Key ''platform'', Key ''category'', Key ''area'', Key ''priority'']"
  by (simp add: lisa_schema_def)

lemma default_items_lisa:
  "default_items lisa_schema cov =
     (if Optional ''features'' (Some (PList [])) \<in> set cov then []
      else [(''features'', PList [])])"
  by (simp add: lisa_schema_def)

lemma Key_lisa_key:
  "k \<in> {''platform'', ''category'', ''area'', ''priority''} \<Longrightarrow>
   Key k \<in> (\<lambda>(k, v). lisa_key k) ` set d \<longleftrightarrow> k \<in> fst ` set d"
  by (auto simp: lisa_key_def image_iff split: if_splits) force+

lemma Optional_lisa_key:
  "Optional ''features'' (Some (PList [])) \<in> (\<lambda>(k, v). lisa_key k) ` set d
     \<longleftrightarrow> ''features'' \<in> fst ` set d"
  by (auto simp: lisa_key_def image_iff split: if_splits) force+

lemma has_I: "distinct (map fst kw) \<Longrightarrow> (k, v) \<in> set kw \<Longrightarrow> P v \<Longrightarrow> has kw k P"
  by (simp add: has_def)

lemma has_D: "has kw k P \<Longrightarrow> \<exists>v. (k, v) \<in> set kw \<and> P v"
  by (cases "map_of kw k") (auto simp: has_def dest: map_of_SomeD)

lemma has_unique:
  "has kw k P \<Longrightarrow> distinct (map fst kw) \<Longrightarrow> (k, v) \<in> set kw \<Longrightarrow> P v"
  by (simp add: has_def)

lemma features_ok_iff:
  assumes "distinct (map fst kw)"
  shows "features_ok kw \<longleftrightarrow> (\<forall>v. (''features'', v) \<in> set kw \<longrightarrow> is_str_list v)"
proof -
  have m: "\<And>v. ((''features'', v) \<in> set kw) = (map_of kw ''features'' = Some v)"
    using assms by simp
  show ?thesis
    unfolding m by (cases "map_of kw ''features''") (simp_all add: features_ok_def)
qed

lemma accepted_iff:
  assumes d: "distinct (map fst kw)"
  shows "required_parameters_ok kw \<and> features_ok kw \<longleftrightarrow>
     list_all (\<lambda>(k, v). param_ok k v) kw
     \<and> {''platform'', ''category'', ''area'', ''priority''} \<subseteq> fst ` set kw"
    (is "?L \<longleftrightarrow> ?R")
proof
  assume l: ?L
  then have h: "has kw ''platform'' is_str" "has kw ''category'' is_category"
    "has kw ''area'' is_str" "has kw ''priority'' is_priority"
    and f: "\<forall>v. (''features'', v) \<in> set kw \<longrightarrow> is_str_list v"
    by (simp_all add: required_parameters_ok_def features_ok_iff [OF d])
  have "param_ok k v" if "(k, v) \<in> set kw" for k v
    unfolding param_ok_def
    using has_unique [OF h(1) d] has_unique [OF h(2) d] has_unique [OF h(3) d]
      has_unique [OF h(4) d] f that by blast
  then have "list_all (\<lambda>(k, v). param_ok k v) kw"
    by (auto simp: list_all_iff)
  moreover have "{''platform'', ''category'', ''area'', ''priority''} \<subseteq> fst ` set kw"
    using has_D [OF h(1)] has_D [OF h(2)] has_D [OF h(3)] has_D [OF h(4)]
    by (force simp: image_iff)
  ultimately show ?R by simp
next
  assume r: ?R
  then have p: "\<And>k v. (k, v) \<in> set kw \<Longrightarrow> param_ok k v"
    by (auto simp: list_all_iff)
  from r obtain v1 v2 v3 v4 where
    v: "(''platform'', v1) \<in> set kw" "(''category'', v2) \<in> set kw"
       "(''area'', v3) \<in> set kw" "(''priority'', v4) \<in> set kw"
    by (auto simp: image_iff)
  have "is_str v1" "is_category v2" "is_str v3" "is_priority v4"
    using p [OF v(1)] p [OF v(2)] p [OF v(3)] p [OF v(4)]
    by (simp_all add: param_ok_def)
  then have "required_parameters_ok kw"
    unfolding required_parameters_ok_def
    using has_I [OF d v(1)] has_I [OF d v(2)] has_I [OF d v(3)] has_I [OF d v(4)]
    by blast
  moreover have "features_ok kw"
    unfolding features_ok_iff [OF d]
  proof (intro allI impI)
    fix v assume "(''features'', v) \<in> set kw"
    from p [OF this] show "is_str_list v" by (simp add: param_ok_def)
  qed
  ultimately show ?L by simp
qed

lemma coverage_lisa:
  "set (rev (map (\<lambda>(k, v). lisa_key k) (data_items kw)) @ []) = (\<lambda>(k, v). lisa_key k) ` set kw"
  by (simp add: set_data_items)

lemma required_covered:
  "set (required_keys lisa_schema) \<subseteq> (\<lambda>(k, v). lisa_key k) ` set kw \<longleftrightarrow>
     {''platform'', ''category'', ''area'', ''priority''} \<subseteq> fst ` set kw"
  using Key_lisa_key [of "''platform''" kw] Key_lisa_key [of "''category''" kw]
    Key_lisa_key [of "''area''" kw] Key_lisa_key [of "''priority''" kw]
  by (simp add: required_keys_lisa)

lemma validate_dict_accepted:
  assumes d: "distinct (map fst kw)"
    and ok: "list_all (\<lambda>(k, v). param_ok k v) kw"
    and req: "{''platform'', ''category'', ''area'', ''priority''} \<subseteq> fst ` set kw"
  shows "validate_dict lisa_schema True kw =
     Inr (data_items kw @
          (if ''features'' \<in> fst ` set kw then [] else [(''features'', PList [])]))"
proof -
  let ?cov = "rev (map (\<lambda>(k, v). lisa_key k) (data_items kw)) @ []"
  have items: "validate_items lisa_schema (data_items kw) ([], []) =
      Inr (dict_update [] (data_items kw), ?cov)"
    using ok by (intro validate_items_ok) (simp add: list_all_data_items)
  have new: "dict_update [] (data_items kw) = data_items kw"
    using dict_update_fresh [of "[]" "data_items kw"] distinct_data_items [OF d] by simp
  have cov: "set (required_keys lisa_schema) \<subseteq> set ?cov"
    unfolding coverage_lisa required_covered using req .
  have def: "default_items lisa_schema ?cov =
      (if ''features'' \<in> fst ` set kw then [] else [(''features'', PList [])])"
    unfolding default_items_lisa coverage_lisa Optional_lisa_key ..
  have upd: "dict_update (data_items kw)
        (if ''features'' \<in> fst ` set kw then [] else [(''features'', PList [])]) =
      data_items kw @ (if ''features'' \<in> fst ` set kw then [] else [(''features'', PList [])])"
  proof (cases "''features'' \<in> fst ` set kw")
    case True
    then show ?thesis by (simp add: dict_update_def)
  next
    case False
    then have "distinct (map fst (data_items kw @ [(''features'', PList [])]))"
      using distinct_data_items [OF d] by (simp add: set_data_items)
    from dict_update_fresh [OF this] False show ?thesis by simp
  qed
  show ?thesis
    unfolding validate_dict_def sorted_lisa_schema items
    using cov by (simp only: sum.case prod.case new def upd if_False if_True not_True_eq_False
        simp_thms)
qed

lemma validate_dict_rejected:
  assumes "\<not> (list_all (\<lambda>(k, v). param_ok k v) kw
     \<and> {''platform'', ''category'', ''area'', ''priority''} \<subseteq> fst ` set kw)"
  shows "\<exists>e. validate_dict lisa_schema True kw = Inl e"
proof (cases "list_all (\<lambda>(k, v). param_ok k v) kw")
  case False
  then have "\<not> list_all (\<lambda>(k, v). param_ok k v) (data_items kw)"
    by (simp add: list_all_data_items)
  from validate_items_bad [OF this, of "[]" "[]"]
  obtain k where "validate_items lisa_schema (data_items kw) ([], []) = Inl (SchemaError k)"
    by blast
  then show ?thesis
    by (simp add: validate_dict_def sorted_lisa_schema)
next
  case True
  let ?cov = "rev (map (\<lambda>(k, v). lisa_key k) (data_items kw)) @ []"
  have items: "validate_items lisa_schema (data_items kw) ([], []) =
      Inr (dict_update [] (data_items kw), ?cov)"
    using True by (intro validate_items_ok) (simp add: list_all_data_items)
  from True assms have "\<not> set (required_keys lisa_schema) \<subseteq> set ?cov"
    unfolding coverage_lisa required_covered by simp
  then show ?thesis
    unfolding validate_dict_def sorted_lisa_schema items by simp
qed

lemma merge_validated:
  assumes d: "distinct (map fst kw)"
  shows "dict_update kw (data_items kw @
           (if ''features'' \<in> fst ` set kw then [] else [(''features'', PList [])])) =
         kw @ (if ''features'' \<in> fst ` set kw then [] else [(''features'', PList [])])"
proof -
  have "\<forall>(k, v) \<in> set (data_items kw). map_of kw k = Some v"
    using d by (auto simp: set_data_items)
  then have same: "dict_update kw (data_items kw) = kw"
    by (rule dict_update_same)
  show ?thesis
  proof (cases "''features'' \<in> fst ` set kw")
    case True
    then show ?thesis by (simp add: same)
  next
    case False
    then have "distinct (map fst (kw @ [(''features'', PList [])]))"
      using d by simp
    from dict_update_fresh [OF this] False show ?thesis
      by (simp add: dict_update_append same)
  qed
qed

text \<open>
  C10, as amended. \<open>lisa_schema\<close> accepts the parameters of a marker if and only if the
  platform and the area are strings, the category is one of the five names, the
  priority is equal to one of 0, 1, 2, 3 (as Python compares: \<open>False\<close> and \<open>True\<close> are
  0 and 1) and the features, when present, are a list of strings. Other keys are
  accepted as they are. After \<open>validate\<close> the parameters are the ones before, followed by
  \<open>features = []\<close> when there were no features.
\<close>
theorem lisa_schema_accepts_iff:
  assumes "distinct (map fst kw)"
  shows "((\<exists>new. validate_dict lisa_schema True kw = Inr new)
            \<longleftrightarrow> required_parameters_ok kw \<and> features_ok kw)
     \<and> (required_parameters_ok kw \<and> features_ok kw \<longrightarrow>
          validate \<lparr>args = [], kwargs = kw\<rparr> =
            (Inr (), \<lparr>args = [],
                      kwargs = kw @ (if ''features'' \<in> fst ` set kw then []
                                     else [(''features'', PList [])])\<rparr>))"
proof (cases "required_parameters_ok kw \<and> features_ok kw")
  case True
  then have "list_all (\<lambda>(k, v). param_ok k v) kw"
    and "{''platform'', ''category'', ''area'', ''priority''} \<subseteq> fst ` set kw"
    unfolding accepted_iff [OF assms] by simp_all
  from validate_dict_accepted [OF assms this] True merge_validated [OF assms]
  show ?thesis by (simp add: validate_def)
next
  case False
  then have "\<not> (list_all (\<lambda>(k, v). param_ok k v) kw
     \<and> {''platform'', ''category'', ''area'', ''priority''} \<subseteq> fst ` set kw)"
    unfolding accepted_iff [OF assms] .
  from validate_dict_rejected [OF this] False show ?thesis by auto
qed

theorem lisa_schema_accepts_iff_witness:
  "distinct (map fst tagged_kwargs)
   \<and> required_parameters_ok tagged_kwargs \<and> features_ok tagged_kwargs
   \<and> (\<exists>new. validate_dict lisa_schema True tagged_kwargs = Inr new)
   \<and> validate \<lparr>args = [], kwargs = tagged_kwargs\<rparr> =
       (Inr (), \<lparr>args = [], kwargs = tagged_kwargs @ [(''features'', PList [])]\<rparr>)"
proof -
  have a: "distinct (map fst tagged_kwargs)"
    by (simp add: tagged_kwargs_def smoke_kwargs_def)
  have b: "required_parameters_ok tagged_kwargs" "features_ok tagged_kwargs"
    by (simp_all add: required_parameters_ok_def features_ok_def has_def tagged_kwargs_def
        smoke_kwargs_def is_str_def is_category_def is_priority_def)
  have c: "''features'' \<notin> fst ` set tagged_kwargs"
    by (simp add: tagged_kwargs_def smoke_kwargs_def)
  from lisa_schema_accepts_iff [OF a] a b c show ?thesis by simp
qed

text \<open>
  C10 as stated fails: with all four required parameters right and a number for the
  features, the schema rejects the marker.
\<close>
theorem bad_features_rejected:
  "distinct (map fst bad_features_kwargs) \<and> required_parameters_ok bad_features_kwargs
   \<and> validate_dict lisa_schema True bad_features_kwargs = Inl (SchemaError ''features'')
   \<and> \<not> (\<exists>new. validate_dict lisa_schema True bad_features_kwargs = Inr new)"
  by (simp add: required_parameters_ok_def has_def bad_features_kwargs_def
      smoke_kwargs_def is_str_def is_category_def is_priority_def is_str_list_def
      validate_dict_def sorted_lisa_schema data_items_def is_dict_def find_entry_lisa
      param_ok_def lisa_key_def dict_update_def)

text \<open>
  C9. A mark with positional arguments makes \<open>validate\<close> raise the \<open>AssertionError\<close> with
  the message of line 40 and leaves the mark, and so its parameters, as they were,
  whatever the parameters are; the outcome is the schema's only when there are no
  positional arguments.
\<close>
theorem validate_rejects_positional_arguments:
  "(args m \<noteq> [] \<longrightarrow>
      validate m = (Inl (AssertError ''LISA marker cannot have positional arguments!''), m))
   \<and> (args m = [] \<longrightarrow>
      fst (validate m) = map_sum id (\<lambda>_. ()) (validate_dict lisa_schema True (kwargs m)))"
  by (simp add: validate_def split: sum.splits)

theorem validate_rejects_positional_arguments_witness:
  "args positional_mark \<noteq> []
   \<and> validate positional_mark =
       (Inl (AssertError ''LISA marker cannot have positional arguments!''), positional_mark)
   \<and> args smoke_mark = []
   \<and> fst (validate smoke_mark) = Inr ()"
proof -
  have a: "args positional_mark \<noteq> []" and b: "args smoke_mark = []"
    by (simp_all add: positional_mark_def smoke_mark_def)
  have c: "validate_dict lisa_schema True (kwargs smoke_mark) =
      Inr (smoke_kwargs @ [(''features'', PList [])])"
    by (simp add: smoke_mark_def smoke_kwargs_def
      validate_dict_def sorted_lisa_schema data_items_def is_dict_def find_entry_lisa
      param_ok_def lisa_key_def dict_update_def is_str_def is_category_def is_priority_def
      required_keys_lisa default_items_lisa)
  from validate_rejects_positional_arguments [of positional_mark]
    validate_rejects_positional_arguments [of smoke_mark] a b c
  show ?thesis by simp
qed

text \<open>
  C7. The command timeout of the configuration is 1200 (seconds).
\<close>
theorem command_timeout_default: "command_timeout = Some (PInt 1200)"
  by (simp add: command_timeout_def config_def)

end
